theory Spec2Isabelle
  imports Main
begin

section \<open>Python values\<close>

text \<open>
  The values that flow through \<^verbatim>\<open>ResultSerializer\<close> and \<^verbatim>\<open>TabulateFormatter\<close>.
  A dict is an association list in insertion order with string keys (every dict the two
  functions build or index is keyed by field names, task names or host names).
\<close>

datatype pyval =
    PNone
  | PBool bool
  | PInt int
  | PStr string
  | PList "pyval list"
  | PDict "(string \<times> pyval) list"

type_synonym pydict = "(string \<times> pyval) list"

text \<open>Truth value of an object, as \<^verbatim>\<open>if x:\<close> tests it.\<close>

fun py_truthy :: "pyval \<Rightarrow> bool" where
  "py_truthy PNone = False"
| "py_truthy (PBool b) = b"
| "py_truthy (PInt n) = (n \<noteq> 0)"
| "py_truthy (PStr s) = (s \<noteq> [])"
| "py_truthy (PList xs) = (xs \<noteq> [])"
| "py_truthy (PDict d) = (d \<noteq> [])"

text \<open>\<^verbatim>\<open>d[k] = v\<close>: an existing key keeps its position, a new key goes to the end.\<close>

fun dict_set :: "pydict \<Rightarrow> string \<Rightarrow> pyval \<Rightarrow> pydict" where
  "dict_set [] k v = [(k, v)]"
| "dict_set ((k', v') # d) k v =
     (if k' = k then (k, v) # d else (k', v') # dict_set d k v)"

text \<open>\<^verbatim>\<open>d.get(k)\<close> as an option, and \<^verbatim>\<open>k in d\<close>.\<close>

fun dict_get :: "pydict \<Rightarrow> string \<Rightarrow> pyval option" where
  "dict_get [] k = None"
| "dict_get ((k', v') # d) k = (if k' = k then Some v' else dict_get d k)"

definition dict_has :: "pydict \<Rightarrow> string \<Rightarrow> bool" where
  "dict_has d k = (dict_get d k \<noteq> None)"

text \<open>The dict left by \<^verbatim>\<open>d.pop(k)\<close>.\<close>

definition dict_del :: "pydict \<Rightarrow> string \<Rightarrow> pydict" where
  "dict_del d k = filter (\<lambda>kv. fst kv \<noteq> k) d"

text \<open>\<^verbatim>\<open>{**a, **b}\<close>: the entries of \<open>a\<close>, then those of \<open>b\<close> written over them.\<close>

definition dict_merge :: "pydict \<Rightarrow> pydict \<Rightarrow> pydict" where
  "dict_merge a b = foldl (\<lambda>d kv. dict_set d (fst kv) (snd kv)) a b"

section \<open>ResultSerializer\<close>

text \<open>
  One task outcome (\<^verbatim>\<open>nornir.core.task.Result\<close>) as the serializer reads it:
  \<^verbatim>\<open>i.name\<close>, \<^verbatim>\<open>i.result\<close>, \<^verbatim>\<open>i.changed\<close>, \<^verbatim>\<open>i.failed\<close>, \<^verbatim>\<open>i.diff\<close>, \<^verbatim>\<open>i.exception\<close>
  (nothing, or an exception object, kept as its text) and \<^verbatim>\<open>i.host.get("exception")\<close>
  (\<open>PNone\<close> when the host carries no such entry).
\<close>

record task =
  name :: string
  result :: pyval
  changed :: bool
  failed :: bool
  diff :: string
  exception :: "string option"
  host_exception :: pyval

text \<open>\<^verbatim>\<open>str(i.exception)\<close>; \<^verbatim>\<open>str(None)\<close> is the text \<^verbatim>\<open>None\<close>.\<close>

fun py_str_exception :: "string option \<Rightarrow> string" where
  "py_str_exception None = ''None''"
| "py_str_exception (Some msg) = msg"

text \<open>An exception object is always true; \<^verbatim>\<open>None\<close> is false.\<close>

fun exception_truthy :: "string option \<Rightarrow> bool" where
  "exception_truthy None = False"
| "exception_truthy (Some msg) = True"

definition skip_tasks :: "string list" where
  "skip_tasks = [''netmiko_send_commands'']"

text \<open>\<^verbatim>\<open>s.startswith("_")\<close>.\<close>

fun startswith_underscore :: "string \<Rightarrow> bool" where
  "startswith_underscore [] = False"
| "startswith_underscore (c # cs) = (c = CHR ''_'')"

text \<open>The two \<^verbatim>\<open>continue\<close> branches of either loop.\<close>

definition skipped :: "task \<Rightarrow> bool" where
  "skipped i = (startswith_underscore (name i) \<or> name i \<in> set skip_tasks)"

text \<open>The enrichment fields both loops write when \<^verbatim>\<open>add_details\<close> is set.\<close>

definition details :: "task \<Rightarrow> pydict" where
  "details i =
     [(''diff'', PStr (diff i)),
      (''changed'', PBool (changed i)),
      (''result'', result i),
      (''failed'', PBool (if exception_truthy (exception i) then True else failed i)),
      (''exception'', PStr (py_str_exception (exception i)))]"

text \<open>One iteration of the inner loop of the \<^verbatim>\<open>to_dict\<close> branch, on \<^verbatim>\<open>ret[hostname]\<close>.\<close>

definition dict_step :: "bool \<Rightarrow> pydict \<Rightarrow> task \<Rightarrow> pydict" where
  "dict_step add_details d i =
     (if startswith_underscore (name i) then d
      else if name i \<in> set skip_tasks then d
      else if py_truthy (host_exception i) then
        dict_set d (name i) (PDict [(''exception'', host_exception i)])
      else if add_details then dict_set d (name i) (PDict (details i))
      else dict_set d (name i) (result i))"

text \<open>One iteration of the inner loop of the list branch, on \<^verbatim>\<open>ret[hostname]\<close>.\<close>

definition list_step :: "bool \<Rightarrow> pyval list \<Rightarrow> task \<Rightarrow> pyval list" where
  "list_step add_details l i =
     (if startswith_underscore (name i) then l
      else if name i \<in> set skip_tasks then l
      else if py_truthy (host_exception i) then
        l @ [PDict [(''name'', PStr (name i)), (''exception'', host_exception i)]]
      else if add_details then l @ [PDict ((''name'', PStr (name i)) # details i)]
      else l @ [PDict [(''name'', PStr (name i)), (''result'', result i)]])"

text \<open>
  The collection is \<^verbatim>\<open>nr_results.items()\<close>: host names with their task outcomes, in
  order. Each outer iteration binds \<^verbatim>\<open>ret[hostname]\<close> to a fresh container and the
  inner loop fills it.
\<close>

type_synonym collection = "(string \<times> task list) list"

definition ResultSerializer :: "collection \<Rightarrow> bool \<Rightarrow> bool \<Rightarrow> pydict" where
  "ResultSerializer nr_results add_details to_dict =
     (if to_dict then
        foldl (\<lambda>ret (hostname, results).
                 dict_set ret hostname (PDict (foldl (dict_step add_details) [] results)))
              [] nr_results
      else
        foldl (\<lambda>ret (hostname, results).
                 dict_set ret hostname (PList (foldl (list_step add_details) [] results)))
              [] nr_results)"

text \<open>What the \<^verbatim>\<open>to_dict\<close> branch binds to the name of a task it does not skip.\<close>

definition dict_value :: "bool \<Rightarrow> task \<Rightarrow> pyval" where
  "dict_value add_details i =
     (if py_truthy (host_exception i) then PDict [(''exception'', host_exception i)]
      else if add_details then PDict (details i) else result i)"

text \<open>The record the list branch appends for a task it does not skip.\<close>

definition list_record :: "bool \<Rightarrow> task \<Rightarrow> pyval" where
  "list_record add_details i =
     (if py_truthy (host_exception i)
      then PDict [(''name'', PStr (name i)), (''exception'', host_exception i)]
      else if add_details then PDict ((''name'', PStr (name i)) # details i)
      else PDict [(''name'', PStr (name i)), (''result'', result i)])"


subsection \<open>Sample task outcomes\<close>

definition clock_task :: task where
  "clock_task = \<lparr>name = ''show clock'', result = PStr ''12:00'', changed = False,
                  failed = False, diff = [], exception = None, host_exception = PNone\<rparr>"

definition lost_task :: task where
  "lost_task = clock_task\<lparr>host_exception := PStr ''connection lost''\<rparr>"

definition crashed_task :: task where
  "crashed_task = clock_task\<lparr>name := ''show version'', exception := Some ''timed out''\<rparr>"

definition facts_task :: task where
  "facts_task = clock_task\<lparr>name := ''_gather_facts''\<rparr>"


subsection \<open>Triples of host, task name and result\<close>

text \<open>
  What the two shapes hold, read as (host, task name, result) triples. In dict mode the
  result is the value under the task's name. In list mode it is the record's \<^verbatim>\<open>result\<close>
  field; a record without one (the host-exception record) stands for itself without its
  \<^verbatim>\<open>name\<close>, which is what dict mode stores for it.
\<close>

fun dict_host_triples :: "string \<Rightarrow> pyval \<Rightarrow> (string \<times> string \<times> pyval) list" where
  "dict_host_triples h (PDict d) = map (\<lambda>(n, r). (h, n, r)) d"
| "dict_host_triples h _ = []"

definition dict_triples :: "pydict \<Rightarrow> (string \<times> string \<times> pyval) list" where
  "dict_triples out = concat (map (\<lambda>(h, v). dict_host_triples h v) out)"

definition record_payload :: "pydict \<Rightarrow> pyval" where
  "record_payload r =
     (case dict_get r ''result'' of Some v \<Rightarrow> v | None \<Rightarrow> PDict (dict_del r ''name''))"

fun record_triple :: "string \<Rightarrow> pyval \<Rightarrow> (string \<times> string \<times> pyval) list" where
  "record_triple h (PDict r) =
     (case dict_get r ''name'' of Some (PStr n) \<Rightarrow> [(h, n, record_payload r)] | _ \<Rightarrow> [])"
| "record_triple h _ = []"

fun list_host_triples :: "string \<Rightarrow> pyval \<Rightarrow> (string \<times> string \<times> pyval) list" where
  "list_host_triples h (PList rs) = concat (map (record_triple h) rs)"
| "list_host_triples h _ = []"

definition list_triples :: "pydict \<Rightarrow> (string \<times> string \<times> pyval) list" where
  "list_triples out = concat (map (\<lambda>(h, v). list_host_triples h v) out)"

definition later_clock_task :: task where
  "later_clock_task = clock_task\<lparr>result := PStr ''12:01''\<rparr>"

section \<open>TabulateFormatter\<close>

subsection \<open>Strings\<close>

text \<open>The characters \<^verbatim>\<open>str.strip()\<close> removes, among those below 256.\<close>

definition py_isspace :: "char \<Rightarrow> bool" where
  "py_isspace c = (of_char c \<in> set [9, 10, 11, 12, 13, 28, 29, 30, 31, 32, 133, 160 :: nat])"

definition py_strip :: "string \<Rightarrow> string" where
  "py_strip s = rev (dropWhile py_isspace (rev (dropWhile py_isspace s)))"

text \<open>\<^verbatim>\<open>s.split(",")\<close>: the pieces between the commas, empty pieces kept.\<close>

fun py_split_comma :: "string \<Rightarrow> string list" where
  "py_split_comma [] = [] # []"
| "py_split_comma (c # cs) =
     (if c = CHR '','' then [] # py_split_comma cs
      else (case py_split_comma cs of w # ws \<Rightarrow> (c # w) # ws | [] \<Rightarrow> [c] # []))"

text \<open>\<^verbatim>\<open>k in s\<close> for two strings: \<open>k\<close> occurs in \<open>s\<close> as a contiguous piece.\<close>

fun py_substring :: "string \<Rightarrow> string \<Rightarrow> bool" where
  "py_substring k [] = (k = [])"
| "py_substring k (c # cs) = (take (length k) (c # cs) = k \<or> py_substring k cs)"

subsection \<open>Errors, objects and the pieces of the function\<close>

datatype pyerror = KeyError | TypeError | AttributeError

text \<open>
  The records of a list passed in are objects the caller still holds, and the function
  mutates them, so the list is a list of addresses into a store of objects. Values the
  function builds itself are not shared and are kept as values.
\<close>

type_synonym heap = "nat \<Rightarrow> pyval"

datatype item = Ref nat | Val pyval

fun deref :: "heap \<Rightarrow> item \<Rightarrow> pyval" where
  "deref h (Ref a) = h a"
| "deref h (Val v) = v"

fun assign :: "heap \<Rightarrow> item \<Rightarrow> pyval \<Rightarrow> heap" where
  "assign h (Ref a) v = h(a := v)"
| "assign h (Val w) v = h"

text \<open>
  The argument \<^verbatim>\<open>result\<close>: an \<^verbatim>\<open>AggregatedResult\<close>, a list of objects, or anything else.
\<close>

datatype tf_input = Aggregated collection | ObjectList "nat list" | Other pyval

text \<open>
  \<^verbatim>\<open>result_to_tabulate\<close> before the mode is resolved: what the serializer returned
  (a fresh dict) or the list that was passed in.
\<close>

datatype table = Fresh pyval | Objects "nat list"

text \<open>What a \<^verbatim>\<open>for\<close> loop over a value yields: the elements of a list, the keys of a dict.\<close>

fun py_iter :: "pyval \<Rightarrow> pyval list" where
  "py_iter (PList xs) = xs"
| "py_iter (PDict d) = map (\<lambda>kv. PStr (fst kv)) d"
| "py_iter _ = []"

fun iter_items :: "table \<Rightarrow> item list" where
  "iter_items (Fresh v) = map Val (py_iter v)"
| "iter_items (Objects as) = map Ref as"

fun snapshot :: "heap \<Rightarrow> table \<Rightarrow> pyval" where
  "snapshot h (Fresh v) = v"
| "snapshot h (Objects as) = PList (map h as)"

text \<open>
  The two header checks: a string with a comma in it is split and its pieces stripped,
  anything else is left as it is.
\<close>

fun check_headers :: "pyval \<Rightarrow> pyval" where
  "check_headers (PStr s) =
     (if CHR '','' \<in> set s then PList (map (\<lambda>i. PStr (py_strip i)) (py_split_comma s))
      else PStr s)"
| "check_headers v = v"

text \<open>\<^verbatim>\<open>tabulate == "brief"\<close> and \<^verbatim>\<open>tabulate == True\<close>: \<^verbatim>\<open>1 == True\<close> and \<^verbatim>\<open>0 == False\<close> hold.\<close>

definition eq_str :: "pyval \<Rightarrow> string \<Rightarrow> bool" where
  "eq_str v s = (v = PStr s)"

definition eq_bool :: "pyval \<Rightarrow> bool \<Rightarrow> bool" where
  "eq_bool v b = (v = PBool b \<or> v = PInt (if b then 1 else 0))"

text \<open>\<^verbatim>\<open>res["result"]\<close>.\<close>

fun subscript_result :: "pyval \<Rightarrow> pyerror + pyval" where
  "subscript_result (PDict d) =
     (case dict_get d ''result'' of Some v \<Rightarrow> Inr v | None \<Rightarrow> Inl KeyError)"
| "subscript_result _ = Inl TypeError"

text \<open>
  One element of the comprehension in the \<^verbatim>\<open>extend\<close> branch; \<open>d\<close> is \<^verbatim>\<open>res\<close> after the
  \<^verbatim>\<open>pop\<close>, which runs once, before the first element.
\<close>

fun extend_row :: "pydict \<Rightarrow> pyval \<Rightarrow> pyval" where
  "extend_row d (PDict i) = PDict (dict_merge d i)"
| "extend_row d i = PDict (dict_set d ''result'' i)"

text \<open>The loop of the \<^verbatim>\<open>extend\<close> branch; the third argument is \<^verbatim>\<open>table_\<close>.\<close>

fun extend_loop :: "heap \<Rightarrow> item list \<Rightarrow> item list \<Rightarrow> (pyerror + item list) \<times> heap" where
  "extend_loop h [] tbl = (Inr tbl, h)"
| "extend_loop h (res # rest) tbl =
     (case subscript_result (deref h res) of
        Inl e \<Rightarrow> (Inl e, h)
      | Inr (PList elems) \<Rightarrow>
          (case deref h res of
             PDict d \<Rightarrow>
               extend_loop (assign h res (PDict (dict_del d ''result''))) rest
                 (tbl @ map (\<lambda>i. Val (extend_row (dict_del d ''result'') i)) elems)
           | _ \<Rightarrow> (Inl TypeError, h))
      | Inr _ \<Rightarrow> extend_loop h rest (tbl @ [res]))"

text \<open>A comprehension whose body can raise: the first error ends it.\<close>

fun map_err :: "('a \<Rightarrow> pyerror + 'b) \<Rightarrow> 'a list \<Rightarrow> pyerror + 'b list" where
  "map_err f [] = Inr []"
| "map_err f (x # xs) =
     (case f x of
        Inl e \<Rightarrow> Inl e
      | Inr y \<Rightarrow> (case map_err f xs of Inl e \<Rightarrow> Inl e | Inr ys \<Rightarrow> Inr (y # ys)))"

text \<open>\<^verbatim>\<open>k in headers_exclude\<close>, for a key \<open>k\<close> of a record.\<close>

fun py_contains :: "pyval \<Rightarrow> string \<Rightarrow> pyerror + bool" where
  "py_contains (PList xs) k = Inr (PStr k \<in> set xs)"
| "py_contains (PStr s) k = Inr (py_substring k s)"
| "py_contains (PDict d) k = Inr (dict_has d k)"
| "py_contains _ k = Inl TypeError"

text \<open>\<^verbatim>\<open>{k: v for k, v in res.items() if k not in headers_exclude}\<close>.\<close>

fun exclude_items :: "pyval \<Rightarrow> pydict \<Rightarrow> pyerror + pydict" where
  "exclude_items hx [] = Inr []"
| "exclude_items hx ((k, v) # d) =
     (case py_contains hx k of
        Inl e \<Rightarrow> Inl e
      | Inr b \<Rightarrow>
          (case exclude_items hx d of
             Inl e \<Rightarrow> Inl e
           | Inr d' \<Rightarrow> Inr (if b then d' else (k, v) # d')))"

fun exclude_record :: "pyval \<Rightarrow> pyval \<Rightarrow> pyerror + pyval" where
  "exclude_record hx (PDict d) =
     (case exclude_items hx d of Inl e \<Rightarrow> Inl e | Inr d' \<Rightarrow> Inr (PDict d'))"
| "exclude_record hx _ = Inl AttributeError"

text \<open>\<^verbatim>\<open>item.get(i, "")\<close>: a list or a dict cannot be hashed, and only strings are keys.\<close>

fun get_cell :: "pyval \<Rightarrow> pyval \<Rightarrow> pyerror + pyval" where
  "get_cell (PDict d) (PStr s) =
     Inr (case dict_get d s of Some v \<Rightarrow> v | None \<Rightarrow> PStr [])"
| "get_cell (PDict d) (PList xs) = Inl TypeError"
| "get_cell (PDict d) (PDict e) = Inl TypeError"
| "get_cell (PDict d) i = Inr (PStr [])"
| "get_cell item i = Inl AttributeError"

definition to_row :: "pyval list \<Rightarrow> pyval \<Rightarrow> pyerror + pyval" where
  "to_row hs item = (case map_err (get_cell item) hs of Inl e \<Rightarrow> Inl e | Inr cells \<Rightarrow> Inr (PList cells))"

text \<open>
  What the function returns: the object it was given, or the result of
  \<^verbatim>\<open>tabulate_lib.tabulate(result_to_tabulate, **tabulate)\<close>, kept as the two arguments of
  that call.
\<close>

datatype tf_return = Original | Tabulated pyval pydict

text \<open>The part after the mode is resolved: exclusion, rows, and the call of the backend.\<close>

definition exclude_step :: "pyval \<Rightarrow> pyval \<Rightarrow> pyerror + pyval" where
  "exclude_step hx data =
     (if py_truthy hx then
        (case map_err (exclude_record hx) (py_iter data) of
           Inl e \<Rightarrow> Inl e | Inr rs \<Rightarrow> Inr (PList rs))
      else Inr data)"

definition rows_step :: "pydict \<Rightarrow> pyval \<Rightarrow> pyerror + pyval" where
  "rows_step kw data =
     (case dict_get kw ''headers'' of
        Some (PList hs) \<Rightarrow>
          (case map_err (to_row hs) (py_iter data) of
             Inl e \<Rightarrow> Inl e | Inr rows \<Rightarrow> Inr (PList rows))
      | _ \<Rightarrow> Inr data)"

definition finish :: "pyval \<Rightarrow> pydict \<Rightarrow> pyval \<Rightarrow> pyerror + tf_return" where
  "finish hx kw data =
     (case exclude_step hx data of
        Inl e \<Rightarrow> Inl e
      | Inr data' \<Rightarrow>
          (case rows_step kw data' of
             Inl e \<Rightarrow> Inl e
           | Inr data'' \<Rightarrow> Inr (Tabulated data'' kw)))"

text \<open>
  The result of a call: what it returned or raised, the store after it, and the object
  passed as \<^verbatim>\<open>tabulate\<close> after it.
\<close>

record tf_result =
  outcome :: "pyerror + tf_return"
  heap_after :: heap
  tabulate_after :: pyval

definition brief_config :: pydict where
  "brief_config =
     [(''tablefmt'', PStr ''grid''), (''showindex'', PBool True),
      (''headers'', PList [PStr ''host'', PStr ''name'', PStr ''result'', PStr ''exception''])]"

text \<open>\<^verbatim>\<open>tabulate.setdefault("headers", headers)\<close>.\<close>

definition setdefault_headers :: "pydict \<Rightarrow> pyval \<Rightarrow> pydict" where
  "setdefault_headers d hs = (if dict_has d ''headers'' then d else dict_set d ''headers'' hs)"

definition resolve_input :: "tf_input \<Rightarrow> table option" where
  "resolve_input result' =
     (case result' of
        Aggregated c \<Rightarrow> Some (Fresh (PDict (ResultSerializer c True False)))
      | ObjectList as \<Rightarrow> Some (Objects as)
      | Other v \<Rightarrow> None)"

definition TabulateFormatter ::
  "bool \<Rightarrow> heap \<Rightarrow> tf_input \<Rightarrow> pyval \<Rightarrow> pyval \<Rightarrow> pyval \<Rightarrow> tf_result" where
  "TabulateFormatter HAS_TABULATE h result' tabulate headers headers_exclude =
     (if \<not> HAS_TABULATE then
        \<lparr>outcome = Inr Original, heap_after = h, tabulate_after = tabulate\<rparr>
      else
        (case resolve_input result' of
           None \<Rightarrow> \<lparr>outcome = Inr Original, heap_after = h, tabulate_after = tabulate\<rparr>
         | Some result_to_tabulate \<Rightarrow>
             let hs = check_headers headers; hx = check_headers headers_exclude in
             if eq_str tabulate ''brief'' then
               \<lparr>outcome = finish hx brief_config (snapshot h result_to_tabulate),
                heap_after = h, tabulate_after = tabulate\<rparr>
             else if eq_bool tabulate True then
               \<lparr>outcome = finish hx [(''headers'', hs)] (snapshot h result_to_tabulate),
                heap_after = h, tabulate_after = tabulate\<rparr>
             else if eq_str tabulate ''extend'' then
               (case extend_loop h (iter_items result_to_tabulate) [] of
                  (Inl e, h') \<Rightarrow>
                    \<lparr>outcome = Inl e, heap_after = h', tabulate_after = tabulate\<rparr>
                | (Inr tbl, h') \<Rightarrow>
                    \<lparr>outcome = finish hx [(''headers'', hs)] (PList (map (deref h') tbl)),
                     heap_after = h', tabulate_after = tabulate\<rparr>)
             else
               (case tabulate of
                  PDict d \<Rightarrow>
                    \<lparr>outcome = finish hx (setdefault_headers d hs) (snapshot h result_to_tabulate),
                     heap_after = h, tabulate_after = PDict (setdefault_headers d hs)\<rparr>
                | _ \<Rightarrow> \<lparr>outcome = Inr Original, heap_after = h, tabulate_after = tabulate\<rparr>)))"

definition empty_heap :: heap where
  "empty_heap = (\<lambda>a. PNone)"

subsection \<open>Sample objects\<close>

text \<open>A store holding the given objects at the addresses 0, 1, ...\<close>

definition heap_of :: "pyval list \<Rightarrow> heap" where
  "heap_of objs = (\<lambda>a. if a < length objs then objs ! a else PNone)"

definition lost_record :: pyval where
  "lost_record = PDict [(''name'', PStr ''show clock''), (''exception'', PStr ''connection lost'')]"

definition hostname_record :: pyval where
  "hostname_record =
     PDict [(''host'', PStr ''R1''), (''name'', PStr ''show clock''),
            (''hostname'', PStr ''r1.lab''), (''result'', PStr ''12:00'')]"

subsection \<open>Rows of the extend mode\<close>


definition interfaces_record :: pyval where
  "interfaces_record =
     PDict [(''host'', PStr ''R1''), (''name'', PStr ''show interfaces''),
            (''result'', PList [PDict [(''interface'', PStr ''Eth1''), (''name'', PStr ''uplink'')],
                                PStr ''Eth2'', PInt 3])]"

definition clock_record :: pyval where
  "clock_record = PDict [(''host'', PStr ''R1''), (''name'', PStr ''show clock''), (''result'', PStr ''12:00'')]"

subsection \<open>Cells of a row\<close>


section \<open>Properties of the serializer\<close>

lemma dict_step_alt:
  "dict_step ad d i = (if skipped i then d else dict_set d (name i) (dict_value ad i))"
  by (simp add: dict_step_def skipped_def dict_value_def)

lemma list_step_alt:
  "list_step ad l i = (if skipped i then l else l @ [list_record ad i])"
  by (simp add: list_step_def skipped_def list_record_def)

lemma dict_get_dict_set:
  "dict_get (dict_set d k v) k' = (if k' = k then Some v else dict_get d k')"
  by (induction d) auto

lemma keys_dict_set: "fst ` set (dict_set d k v) = insert k (fst ` set d)"
proof (induction d)
  case Nil
  show ?case by simp
next
  case (Cons x d)
  obtain k' v' where x: "x = (k', v')" by (cases x)
  show ?case using Cons.IH by (cases "k' = k") (auto simp: x)
qed

lemma dict_set_fresh: "k \<notin> fst ` set d \<Longrightarrow> dict_set d k v = d @ [(k, v)]"
  by (induction d) auto

lemma dict_get_None_iff: "dict_get d k = None \<longleftrightarrow> k \<notin> fst ` set d"
proof (induction d)
  case Nil
  show ?case by simp
next
  case (Cons x d)
  obtain k' v' where x: "x = (k', v')" by (cases x)
  show ?case using Cons.IH by (cases "k' = k") (auto simp: x)
qed

lemma foldl_list_step:
  "foldl (list_step ad) l ts = l @ map (list_record ad) (filter (\<lambda>i. \<not> skipped i) ts)"
  by (induction ts arbitrary: l) (simp_all add: list_step_alt)

lemma foldl_dict_step_filter:
  "foldl (dict_step ad) d ts = foldl (dict_step ad) d (filter (\<lambda>i. \<not> skipped i) ts)"
  by (induction ts arbitrary: d) (simp_all add: dict_step_alt)

lemma keys_foldl_dict_step:
  "fst ` set (foldl (dict_step ad) d ts) = fst ` set d \<union> name ` {i \<in> set ts. \<not> skipped i}"
  by (induction ts arbitrary: d) (auto simp: dict_step_alt keys_dict_set)

lemma foldl_hosts_fresh:
  "distinct (map fst c) \<Longrightarrow> fst ` set c \<inter> fst ` set acc = {} \<Longrightarrow>
   foldl (\<lambda>ret (hostname, results). dict_set ret hostname (f results)) acc c
     = acc @ map (\<lambda>(hostname, results). (hostname, f results)) c"
proof (induction c arbitrary: acc)
  case Nil
  then show ?case by simp
next
  case (Cons x c)
  obtain h ts where x: "x = (h, ts)" by (cases x)
  from Cons.prems have fresh: "h \<notin> fst ` set acc" by (auto simp: x)
  have "fst ` set c \<inter> fst ` set (acc @ [(h, f ts)]) = {}"
    using Cons.prems by (auto simp: x)
  with Cons.IH [of "acc @ [(h, f ts)]"] Cons.prems show ?case
    by (simp add: x dict_set_fresh [OF fresh])
qed

lemma serializer_list:
  "distinct (map fst c) \<Longrightarrow>
   ResultSerializer c ad False =
     map (\<lambda>(h, ts). (h, PList (map (list_record ad) (filter (\<lambda>i. \<not> skipped i) ts)))) c"
  using foldl_hosts_fresh [of c "[]" "\<lambda>ts. PList (foldl (list_step ad) [] ts)"]
  by (simp add: ResultSerializer_def foldl_list_step)

lemma serializer_dict:
  "distinct (map fst c) \<Longrightarrow>
   ResultSerializer c ad True =
     map (\<lambda>(h, ts). (h, PDict (foldl (dict_step ad) [] ts))) c"
  using foldl_hosts_fresh [of c "[]" "\<lambda>ts. PDict (foldl (dict_step ad) [] ts)"]
  by (simp add: ResultSerializer_def)

lemma serializer_skip_invariant:
  "ResultSerializer (map (\<lambda>(h, ts). (h, filter (\<lambda>i. \<not> skipped i) ts)) c) ad td
     = ResultSerializer c ad td"
proof -
  have a: "foldl (\<lambda>ret (hostname, results). dict_set ret hostname (f (filter (\<lambda>i. \<not> skipped i) results))) acc c
        = foldl (\<lambda>ret (hostname, results). dict_set ret hostname (f results)) acc
            (map (\<lambda>(h, ts). (h, filter (\<lambda>i. \<not> skipped i) ts)) c)" for f :: "task list \<Rightarrow> pyval" and acc
    by (induction c arbitrary: acc) (auto)
  show ?thesis
  proof (cases td)
    case True
    have "(\<lambda>ret (hostname, results). dict_set ret hostname (PDict (foldl (dict_step ad) [] results)))
        = (\<lambda>ret (hostname, results). dict_set ret hostname (PDict (foldl (dict_step ad) [] (filter (\<lambda>i. \<not> skipped i) results))))"
      using foldl_dict_step_filter by (intro ext) (auto)
    then show ?thesis using True a [of "\<lambda>ts. PDict (foldl (dict_step ad) [] ts)" "[]"]
      by (simp add: ResultSerializer_def)
  next
    case False
    have "foldl (list_step ad) [] (filter (\<lambda>i. \<not> skipped i) ts) = foldl (list_step ad) [] ts" for ts
      by (simp add: foldl_list_step)
    then show ?thesis using False a [of "\<lambda>ts. PList (foldl (list_step ad) [] ts)" "[]"]
      by (simp add: ResultSerializer_def)
  qed
qed

lemma set_dict_set_subset: "set (dict_set d k v) \<subseteq> insert (k, v) (set d)"
proof (induction d)
  case Nil
  show ?case by simp
next
  case (Cons x d)
  obtain k' v' where x: "x = (k', v')" by (cases x)
  show ?case using Cons.IH by (cases "k' = k") (auto simp: x)
qed

lemma dict_get_in_set: "dict_get d k = Some v \<Longrightarrow> (k, v) \<in> set d"
proof (induction d)
  case Nil
  then show ?case by simp
next
  case (Cons x d)
  obtain k' v' where x: "x = (k', v')" by (cases x)
  show ?case using Cons by (cases "k' = k") (auto simp: x)
qed

lemma foldl_hosts_values:
  "snd ` set (foldl (\<lambda>ret (hostname, results). dict_set ret hostname (f results)) acc c)
     \<subseteq> snd ` set acc \<union> f ` snd ` set c"
proof (induction c arbitrary: acc)
  case Nil
  show ?case by simp
next
  case (Cons x c)
  obtain h ts where x: "x = (h, ts)" by (cases x)
  have "snd ` set (dict_set acc h (f ts)) \<subseteq> insert (f ts) (snd ` set acc)"
    using set_dict_set_subset [of acc h "f ts"] by force
  with Cons.IH [of "dict_set acc h (f ts)"] show ?case
    by (auto simp: x)
qed

lemma dict_get_map_distinct:
  "distinct (map fst c) \<Longrightarrow> (h, ts) \<in> set c \<Longrightarrow>
   dict_get (map (\<lambda>(h, ts). (h, f ts)) c) h = Some (f ts)"
proof (induction c)
  case Nil
  then show ?case by simp
next
  case (Cons x c)
  obtain h' ts' where x: "x = (h', ts')" by (cases x)
  show ?case
  proof (cases "h' = h")
    case True
    with Cons.prems have "ts' = ts" by (force simp: x)
    with True show ?thesis by (simp add: x)
  next
    case False
    with Cons show ?thesis by (auto simp: x)
  qed
qed

lemma dict_get_foldl_other:
  "\<forall>j\<in>set post. skipped j \<or> name j \<noteq> k \<Longrightarrow>
   dict_get (foldl (dict_step ad) d post) k = dict_get d k"
  by (induction post arbitrary: d) (auto simp: dict_step_alt dict_get_dict_set)

lemma dict_get_foldl_last:
  "\<not> skipped i \<Longrightarrow> \<forall>j\<in>set post. skipped j \<or> name j \<noteq> name i \<Longrightarrow>
   dict_get (foldl (dict_step ad) d (pre @ i # post)) (name i) = Some (dict_value ad i)"
  by (simp add: dict_get_foldl_other dict_step_alt dict_get_dict_set)

lemma serializer_list_member:
  assumes "distinct (map fst c)" and "(h, ts) \<in> set c" and "i \<in> set ts" and "\<not> skipped i"
  shows "\<exists>rs. dict_get (ResultSerializer c ad False) h = Some (PList rs) \<and> list_record ad i \<in> set rs"
proof -
  have "dict_get (ResultSerializer c ad False) h
          = Some (PList (map (list_record ad) (filter (\<lambda>i. \<not> skipped i) ts)))"
    using dict_get_map_distinct [OF assms(1,2)] by (simp add: serializer_list [OF assms(1)])
  moreover have "list_record ad i \<in> set (map (list_record ad) (filter (\<lambda>i. \<not> skipped i) ts))"
    using assms(3,4) by simp
  ultimately show ?thesis by blast
qed

lemma serializer_dict_last:
  assumes "distinct (map fst c)" and "(h, pre @ i # post) \<in> set c" and "\<not> skipped i"
    and "\<forall>j\<in>set post. skipped j \<or> name j \<noteq> name i"
  shows "\<exists>d. dict_get (ResultSerializer c ad True) h = Some (PDict d)
             \<and> dict_get d (name i) = Some (dict_value ad i)"
proof -
  have "dict_get (ResultSerializer c ad True) h
          = Some (PDict (foldl (dict_step ad) [] (pre @ i # post)))"
    using dict_get_map_distinct [OF assms(1,2)] by (simp add: serializer_dict [OF assms(1)])
  then show ?thesis using dict_get_foldl_last [OF assms(3,4)] by blast
qed


text \<open>
  Claim C6. A task that is not skipped and whose host carries a true \<^verbatim>\<open>exception\<close> entry
  makes either loop emit, whatever \<^verbatim>\<open>add_details\<close> is, a record holding only that value:
  \<^verbatim>\<open>{"exception": v}\<close> under the task's name in dict mode, and
  \<^verbatim>\<open>{"name": n, "exception": v}\<close> appended in list mode. The record is in the list the
  serializer returns for the host, and it is the entry of the returned dict unless a later
  task of the same name on that host overwrites it.
\<close>

theorem host_exception_record:
  assumes "py_truthy (host_exception i)"
    and "\<not> startswith_underscore (name i)" and "name i \<notin> set skip_tasks"
  shows "dict_step add_details d i =
           dict_set d (name i) (PDict [(''exception'', host_exception i)])
       \<and> list_step add_details l i =
           l @ [PDict [(''name'', PStr (name i)), (''exception'', host_exception i)]]
       \<and> (distinct (map fst c) \<and> (h, pre @ i # post) \<in> set c \<longrightarrow>
            (\<exists>rs. dict_get (ResultSerializer c add_details False) h = Some (PList rs)
                \<and> PDict [(''name'', PStr (name i)), (''exception'', host_exception i)] \<in> set rs))
       \<and> (distinct (map fst c) \<and> (h, pre @ i # post) \<in> set c
            \<and> (\<forall>j\<in>set post. skipped j \<or> name j \<noteq> name i) \<longrightarrow>
            (\<exists>r. dict_get (ResultSerializer c add_details True) h = Some (PDict r)
                \<and> dict_get r (name i) = Some (PDict [(''exception'', host_exception i)])))"
proof -
  have ns: "\<not> skipped i" using assms(2,3) by (simp add: skipped_def)
  have dv: "dict_value add_details i = PDict [(''exception'', host_exception i)]"
    using assms(1) by (simp add: dict_value_def)
  have lr: "list_record add_details i =
              PDict [(''name'', PStr (name i)), (''exception'', host_exception i)]"
    using assms(1) by (simp add: list_record_def)
  have 1: "dict_step add_details d i =
           dict_set d (name i) (PDict [(''exception'', host_exception i)])"
    using ns dv by (simp add: dict_step_alt)
  have 2: "list_step add_details l i =
           l @ [PDict [(''name'', PStr (name i)), (''exception'', host_exception i)]]"
    using ns lr by (simp add: list_step_alt)
  have 3: "\<exists>rs. dict_get (ResultSerializer c add_details False) h = Some (PList rs)
                \<and> PDict [(''name'', PStr (name i)), (''exception'', host_exception i)] \<in> set rs"
    if "distinct (map fst c)" "(h, pre @ i # post) \<in> set c"
    using serializer_list_member [OF that(1,2) _ ns, of add_details] lr by simp
  have 4: "\<exists>r. dict_get (ResultSerializer c add_details True) h = Some (PDict r)
                \<and> dict_get r (name i) = Some (PDict [(''exception'', host_exception i)])"
    if "distinct (map fst c)" "(h, pre @ i # post) \<in> set c"
       "\<forall>j\<in>set post. skipped j \<or> name j \<noteq> name i"
    using serializer_dict_last [OF that(1,2) ns that(3), of add_details] dv by simp
  show ?thesis using 1 2 3 4 by blast
qed

theorem host_exception_record_witness:
  "py_truthy (host_exception lost_task)
   \<and> \<not> startswith_underscore (name lost_task) \<and> name lost_task \<notin> set skip_tasks
   \<and> dict_step True [] lost_task =
        [(''show clock'', PDict [(''exception'', PStr ''connection lost'')])]
   \<and> list_step True [] lost_task =
        [PDict [(''name'', PStr ''show clock''), (''exception'', PStr ''connection lost'')]]"
proof -
  have h1: "py_truthy (host_exception lost_task)"
    by (simp add: lost_task_def clock_task_def)
  have h2: "\<not> startswith_underscore (name lost_task)"
    by (simp add: lost_task_def clock_task_def)
  have h3: "name lost_task \<notin> set skip_tasks"
    by (simp add: lost_task_def clock_task_def skip_tasks_def)
  from host_exception_record [OF h1 h2 h3, where add_details = True and d = "[]" and l = "[]"]
  have "dict_step True [] lost_task =
          dict_set [] (name lost_task) (PDict [(''exception'', host_exception lost_task)])
      \<and> list_step True [] lost_task =
          [] @ [PDict [(''name'', PStr (name lost_task)),
                       (''exception'', host_exception lost_task)]]"
    by blast
  then show ?thesis using h1 h2 h3 by (simp add: lost_task_def clock_task_def)
qed

text \<open>
  Claim C7. For a task that is not skipped and has no host-level exception, the record
  written under \<^verbatim>\<open>add_details\<close> has \<^verbatim>\<open>failed\<close> equal to \<^verbatim>\<open>True\<close> when the task's own
  exception is present and to the task's \<^verbatim>\<open>failed\<close> flag otherwise, and \<^verbatim>\<open>exception\<close> equal
  to the text of the task's exception, which is \<^verbatim>\<open>None\<close> when there is none. That record,
  with the task's name in front, is in the list \<^verbatim>\<open>ResultSerializer\<close> returns for the host, and
  it is the entry under the task's name of the dict \<^verbatim>\<open>ResultSerializer\<close> returns for the host
  unless a later task of the same name on that host overwrites it.
\<close>

theorem details_failed_and_exception:
  assumes "\<not> py_truthy (host_exception i)"
    and "\<not> startswith_underscore (name i)" and "name i \<notin> set skip_tasks"
  shows "\<exists>r. dict_step True d i = dict_set d (name i) (PDict r)
           \<and> list_step True l i = l @ [PDict ((''name'', PStr (name i)) # r)]
           \<and> dict_get r ''failed'' =
               Some (PBool (if exception i \<noteq> None then True else failed i))
           \<and> dict_get r ''exception'' = Some (PStr (py_str_exception (exception i)))
           \<and> (exception i = None \<longrightarrow> dict_get r ''exception'' = Some (PStr ''None''))
           \<and> dict_get ((''name'', PStr (name i)) # r) ''failed'' =
               Some (PBool (if exception i \<noteq> None then True else failed i))
           \<and> dict_get ((''name'', PStr (name i)) # r) ''exception'' =
               Some (PStr (py_str_exception (exception i)))
           \<and> (distinct (map fst c) \<and> (h, pre @ i # post) \<in> set c \<longrightarrow>
                (\<exists>rs. dict_get (ResultSerializer c True False) h = Some (PList rs)
                    \<and> PDict ((''name'', PStr (name i)) # r) \<in> set rs))
           \<and> (distinct (map fst c) \<and> (h, pre @ i # post) \<in> set c
                \<and> (\<forall>j\<in>set post. skipped j \<or> name j \<noteq> name i) \<longrightarrow>
                (\<exists>out. dict_get (ResultSerializer c True True) h = Some (PDict out)
                    \<and> dict_get out (name i) = Some (PDict r)))"
proof -
  have ns: "\<not> skipped i" using assms(2,3) by (simp add: skipped_def)
  have dv: "dict_value True i = PDict (details i)"
    using assms(1) by (simp add: dict_value_def)
  have lr: "list_record True i = PDict ((''name'', PStr (name i)) # details i)"
    using assms(1) by (simp add: list_record_def)
  have 1: "dict_step True d i = dict_set d (name i) (PDict (details i))"
    using ns dv by (simp add: dict_step_alt)
  have 2: "list_step True l i = l @ [PDict ((''name'', PStr (name i)) # details i)]"
    using ns lr by (simp add: list_step_alt)
  have 3: "dict_get (details i) ''failed'' =
             Some (PBool (if exception i \<noteq> None then True else failed i))"
    by (cases "exception i") (simp_all add: details_def)
  have 4: "dict_get (details i) ''exception'' = Some (PStr (py_str_exception (exception i)))"
    by (simp add: details_def)
  have 5: "exception i = None \<longrightarrow> dict_get (details i) ''exception'' = Some (PStr ''None'')"
    using 4 by simp
  have 6: "dict_get ((''name'', PStr (name i)) # details i) ''failed'' =
             Some (PBool (if exception i \<noteq> None then True else failed i))"
    using 3 by simp
  have 7: "dict_get ((''name'', PStr (name i)) # details i) ''exception'' =
             Some (PStr (py_str_exception (exception i)))"
    using 4 by simp
  have 8: "distinct (map fst c) \<and> (h, pre @ i # post) \<in> set c \<longrightarrow>
                (\<exists>rs. dict_get (ResultSerializer c True False) h = Some (PList rs)
                    \<and> PDict ((''name'', PStr (name i)) # details i) \<in> set rs)"
  proof
    assume a: "distinct (map fst c) \<and> (h, pre @ i # post) \<in> set c"
    then have "distinct (map fst c)" and "(h, pre @ i # post) \<in> set c" by simp_all
    from serializer_list_member [OF this _ ns, of True] lr
    show "\<exists>rs. dict_get (ResultSerializer c True False) h = Some (PList rs)
                    \<and> PDict ((''name'', PStr (name i)) # details i) \<in> set rs"
      by simp
  qed
  have 9: "distinct (map fst c) \<and> (h, pre @ i # post) \<in> set c
                \<and> (\<forall>j\<in>set post. skipped j \<or> name j \<noteq> name i) \<longrightarrow>
                (\<exists>out. dict_get (ResultSerializer c True True) h = Some (PDict out)
                    \<and> dict_get out (name i) = Some (PDict (details i)))"
  proof
    assume a: "distinct (map fst c) \<and> (h, pre @ i # post) \<in> set c
                \<and> (\<forall>j\<in>set post. skipped j \<or> name j \<noteq> name i)"
    then have "distinct (map fst c)" and "(h, pre @ i # post) \<in> set c"
      and "\<forall>j\<in>set post. skipped j \<or> name j \<noteq> name i" by simp_all
    from serializer_dict_last [OF this(1,2) ns this(3), of True] dv
    show "\<exists>out. dict_get (ResultSerializer c True True) h = Some (PDict out)
                    \<and> dict_get out (name i) = Some (PDict (details i))"
      by simp
  qed
  show ?thesis
    by (rule exI [of _ "details i"]) (intro conjI 1 2 3 4 5 6 7 8 9)
qed

theorem details_failed_and_exception_witness:
  "\<not> py_truthy (host_exception crashed_task)
   \<and> \<not> startswith_underscore (name crashed_task) \<and> name crashed_task \<notin> set skip_tasks
   \<and> (\<exists>r. dict_step True [] crashed_task = dict_set [] (name crashed_task) (PDict r)
         \<and> list_step True [] crashed_task = [] @ [PDict ((''name'', PStr (name crashed_task)) # r)]
         \<and> dict_get r ''failed'' = Some (PBool True)
         \<and> dict_get r ''exception'' = Some (PStr ''timed out'')
         \<and> (\<exists>rs. dict_get (ResultSerializer [(''R1'', [clock_task, crashed_task])] True False) ''R1''
                    = Some (PList rs)
               \<and> PDict ((''name'', PStr (name crashed_task)) # r) \<in> set rs)
         \<and> (\<exists>out. dict_get (ResultSerializer [(''R1'', [clock_task, crashed_task])] True True) ''R1''
                    = Some (PDict out)
               \<and> dict_get out (name crashed_task) = Some (PDict r)))"
proof -
  have h1: "\<not> py_truthy (host_exception crashed_task)"
    by (simp add: crashed_task_def clock_task_def)
  have h2: "\<not> startswith_underscore (name crashed_task)"
    by (simp add: crashed_task_def clock_task_def)
  have h3: "name crashed_task \<notin> set skip_tasks"
    by (simp add: crashed_task_def clock_task_def skip_tasks_def)
  have e: "exception crashed_task = Some ''timed out''"
    by (simp add: crashed_task_def clock_task_def)
  have c1: "distinct (map fst [(''R1'', [clock_task, crashed_task])])" by simp
  have c2: "(''R1'', [clock_task] @ crashed_task # []) \<in> set [(''R1'', [clock_task, crashed_task])]"
    by simp
  have c3: "\<forall>j\<in>set []. skipped j \<or> name j \<noteq> name crashed_task" by simp
  from details_failed_and_exception [OF h1 h2 h3, where d = "[]" and l = "[]"
      and c = "[(''R1'', [clock_task, crashed_task])]" and h = "''R1''"
      and pre = "[clock_task]" and post = "[]"]
  obtain r where r:
    "dict_step True [] crashed_task = dict_set [] (name crashed_task) (PDict r)"
    "list_step True [] crashed_task = [] @ [PDict ((''name'', PStr (name crashed_task)) # r)]"
    "dict_get r ''failed'' = Some (PBool (if exception crashed_task \<noteq> None then True else failed crashed_task))"
    "dict_get r ''exception'' = Some (PStr (py_str_exception (exception crashed_task)))"
    "distinct (map fst [(''R1'', [clock_task, crashed_task])])
       \<and> (''R1'', [clock_task] @ crashed_task # []) \<in> set [(''R1'', [clock_task, crashed_task])] \<longrightarrow>
     (\<exists>rs. dict_get (ResultSerializer [(''R1'', [clock_task, crashed_task])] True False) ''R1''
                    = Some (PList rs)
               \<and> PDict ((''name'', PStr (name crashed_task)) # r) \<in> set rs)"
    "distinct (map fst [(''R1'', [clock_task, crashed_task])])
       \<and> (''R1'', [clock_task] @ crashed_task # []) \<in> set [(''R1'', [clock_task, crashed_task])]
       \<and> (\<forall>j\<in>set []. skipped j \<or> name j \<noteq> name crashed_task) \<longrightarrow>
     (\<exists>out. dict_get (ResultSerializer [(''R1'', [clock_task, crashed_task])] True True) ''R1''
                    = Some (PDict out)
               \<and> dict_get out (name crashed_task) = Some (PDict r))"
    by blast
  from r(5) c1 c2 have s1:
    "\<exists>rs. dict_get (ResultSerializer [(''R1'', [clock_task, crashed_task])] True False) ''R1''
                    = Some (PList rs)
               \<and> PDict ((''name'', PStr (name crashed_task)) # r) \<in> set rs"
    by blast
  from r(6) c1 c2 c3 have s2:
    "\<exists>out. dict_get (ResultSerializer [(''R1'', [clock_task, crashed_task])] True True) ''R1''
                    = Some (PDict out)
               \<and> dict_get out (name crashed_task) = Some (PDict r)"
    by blast
  have f: "dict_get r ''failed'' = Some (PBool True)" using r(3) e by simp
  have x: "dict_get r ''exception'' = Some (PStr ''timed out'')" using r(4) e by simp
  show ?thesis using h1 h2 h3 r(1,2) f x s1 s2 by blast
qed

text \<open>
  Claim C8. For every collection and both flags, tasks whose name starts with an underscore
  or is listed in \<^verbatim>\<open>skip_tasks\<close> contribute nothing: removing them from the input leaves the
  output as it is, no key of a host's dict is such a name, and no record of a host's list
  carries such a name.
\<close>

theorem skipped_tasks_absent:
  "ResultSerializer (map (\<lambda>(h, ts). (h, filter (\<lambda>i. \<not> (startswith_underscore (name i) \<or> name i \<in> set skip_tasks)) ts)) c)
       add_details to_dict
     = ResultSerializer c add_details to_dict
   \<and> (\<forall>h v. dict_get (ResultSerializer c add_details True) h = Some v \<longrightarrow>
         (\<exists>d. v = PDict d \<and>
            (\<forall>k. dict_has d k \<longrightarrow> \<not> startswith_underscore k \<and> k \<notin> set skip_tasks)))
   \<and> (\<forall>h v. dict_get (ResultSerializer c add_details False) h = Some v \<longrightarrow>
         (\<exists>rs. v = PList rs \<and>
            (\<forall>r\<in>set rs. \<exists>d n. r = PDict d \<and> dict_get d ''name'' = Some (PStr n)
                 \<and> \<not> startswith_underscore n \<and> n \<notin> set skip_tasks)))"
proof -
  have 1: "ResultSerializer (map (\<lambda>(h, ts). (h, filter (\<lambda>i. \<not> (startswith_underscore (name i) \<or> name i \<in> set skip_tasks)) ts)) c)
       add_details to_dict = ResultSerializer c add_details to_dict"
    using serializer_skip_invariant [of c add_details to_dict] by (simp add: skipped_def)
  have 2: "\<exists>d. v = PDict d \<and>
            (\<forall>k. dict_has d k \<longrightarrow> \<not> startswith_underscore k \<and> k \<notin> set skip_tasks)"
    if "dict_get (ResultSerializer c add_details True) h = Some v" for h v
  proof -
    from dict_get_in_set [OF that]
    have "v \<in> snd ` set (ResultSerializer c add_details True)" by force
    with foldl_hosts_values [of "\<lambda>ts. PDict (foldl (dict_step add_details) [] ts)" "[]" c]
    obtain ts where v: "v = PDict (foldl (dict_step add_details) [] ts)"
      by (auto simp: ResultSerializer_def)
    have "\<not> startswith_underscore k \<and> k \<notin> set skip_tasks"
      if "dict_has (foldl (dict_step add_details) [] ts) k" for k
    proof -
      from that have "k \<in> fst ` set (foldl (dict_step add_details) [] ts)"
        by (simp add: dict_has_def dict_get_None_iff)
      then obtain i where "\<not> skipped i" "k = name i"
        by (auto simp: keys_foldl_dict_step)
      then show ?thesis by (simp add: skipped_def)
    qed
    with v show ?thesis by blast
  qed
  have 3: "\<exists>rs. v = PList rs \<and>
            (\<forall>r\<in>set rs. \<exists>d n. r = PDict d \<and> dict_get d ''name'' = Some (PStr n)
                 \<and> \<not> startswith_underscore n \<and> n \<notin> set skip_tasks)"
    if "dict_get (ResultSerializer c add_details False) h = Some v" for h v
  proof -
    from dict_get_in_set [OF that]
    have "v \<in> snd ` set (ResultSerializer c add_details False)" by force
    with foldl_hosts_values [of "\<lambda>ts. PList (foldl (list_step add_details) [] ts)" "[]" c]
    obtain ts where v: "v = PList (map (list_record add_details) (filter (\<lambda>i. \<not> skipped i) ts))"
      by (auto simp: ResultSerializer_def foldl_list_step)
    have "\<exists>d n. list_record add_details i = PDict d \<and> dict_get d ''name'' = Some (PStr n)
                 \<and> \<not> startswith_underscore n \<and> n \<notin> set skip_tasks"
      if "\<not> skipped i" for i
      using that by (simp add: list_record_def skipped_def)
    with v show ?thesis by auto
  qed
  show ?thesis using 1 2 3 by blast
qed

theorem skipped_tasks_absent_witness:
  "ResultSerializer [(''R1'', [facts_task, clock_task])] False True
     = [(''R1'', PDict [(''show clock'', PStr ''12:00'')])]
   \<and> ResultSerializer [(''R1'', [clock_task])] False True
     = ResultSerializer [(''R1'', [facts_task, clock_task])] False True"
proof -
  have f: "filter (\<lambda>i. \<not> (startswith_underscore (name i) \<or> name i \<in> set skip_tasks))
             [facts_task, clock_task] = [clock_task]"
    by (simp add: facts_task_def clock_task_def skip_tasks_def)
  from skipped_tasks_absent [of "[(''R1'', [facts_task, clock_task])]" False True]
  have "ResultSerializer (map (\<lambda>(h, ts). (h, filter (\<lambda>i. \<not> (startswith_underscore (name i) \<or> name i \<in> set skip_tasks)) ts)) [(''R1'', [facts_task, clock_task])]) False True
     = ResultSerializer [(''R1'', [facts_task, clock_task])] False True"
    by blast
  then have "ResultSerializer [(''R1'', [clock_task])] False True
     = ResultSerializer [(''R1'', [facts_task, clock_task])] False True"
    by (simp only: list.map prod.case f)
  moreover have "ResultSerializer [(''R1'', [clock_task])] False True
     = [(''R1'', PDict [(''show clock'', PStr ''12:00'')])]"
    by (simp add: ResultSerializer_def dict_step_def clock_task_def skip_tasks_def)
  ultimately show ?thesis by simp
qed

subsection \<open>The two shapes\<close>

lemma foldl_dict_step_distinct:
  "distinct (map name (filter (\<lambda>i. \<not> skipped i) ts)) \<Longrightarrow>
   name ` {i \<in> set ts. \<not> skipped i} \<inter> fst ` set d = {} \<Longrightarrow>
   foldl (dict_step ad) d ts
     = d @ map (\<lambda>i. (name i, dict_value ad i)) (filter (\<lambda>i. \<not> skipped i) ts)"
proof (induction ts arbitrary: d)
  case Nil
  show ?case by simp
next
  case (Cons i ts)
  show ?case
  proof (cases "skipped i")
    case True
    have d: "distinct (map name (filter (\<lambda>i. \<not> skipped i) ts))"
      using Cons.prems(1) True by simp
    have "name ` {j \<in> set ts. \<not> skipped j} \<inter> fst ` set d = {}"
      using Cons.prems(2) by auto
    from Cons.IH [OF d this] True show ?thesis by (simp add: dict_step_alt)
  next
    case False
    from Cons.prems(2) False have fresh: "name i \<notin> fst ` set d" by auto
    have d: "distinct (map name (filter (\<lambda>i. \<not> skipped i) ts))"
      using Cons.prems(1) False by simp
    have "name ` {j \<in> set ts. \<not> skipped j} \<inter> fst ` set (d @ [(name i, dict_value ad i)]) = {}"
      using Cons.prems False by auto
    from Cons.IH [OF d this] False show ?thesis
      by (simp add: dict_step_alt dict_set_fresh [OF fresh])
  qed
qed

lemma record_triple_list_record:
  "record_triple h (list_record False i) = [(h, name i, dict_value False i)]"
  by (simp add: list_record_def dict_value_def record_payload_def dict_del_def)

lemma host_triples_agree:
  assumes "distinct (map name (filter (\<lambda>i. \<not> skipped i) ts))"
  shows "dict_host_triples h (PDict (foldl (dict_step False) [] ts))
       = list_host_triples h (PList (map (list_record False) (filter (\<lambda>i. \<not> skipped i) ts)))"
proof -
  have "concat (map (record_triple h) (map (list_record False) xs))
          = map (\<lambda>i. (h, name i, dict_value False i)) xs" for xs
    by (induction xs) (simp_all add: record_triple_list_record)
  moreover have "map (\<lambda>(n, r). (h, n, r)) (map (\<lambda>i. (name i, dict_value False i)) xs)
          = map (\<lambda>i. (h, name i, dict_value False i)) xs" for xs
    by (induction xs) simp_all
  ultimately show ?thesis
    using foldl_dict_step_distinct [OF assms, of "[]" False] by simp
qed

lemma triples_agree:
  assumes "distinct (map fst c)"
    and "\<forall>(h, ts)\<in>set c. distinct (map name (filter (\<lambda>i. \<not> skipped i) ts))"
  shows "dict_triples (ResultSerializer c False True)
       = list_triples (ResultSerializer c False False)"
proof -
  have "concat (map (\<lambda>(h, v). dict_host_triples h v)
          (map (\<lambda>(h, ts). (h, PDict (foldl (dict_step False) [] ts))) c))
      = concat (map (\<lambda>(h, v). list_host_triples h v)
          (map (\<lambda>(h, ts). (h, PList (map (list_record False) (filter (\<lambda>i. \<not> skipped i) ts)))) c))"
    using assms(2)
  proof (induction c)
    case Nil
    show ?case by simp
  next
    case (Cons x c)
    obtain h ts where x: "x = (h, ts)" by (cases x)
    from Cons.prems have "distinct (map name (filter (\<lambda>i. \<not> skipped i) ts))"
      by (simp add: x)
    from host_triples_agree [OF this, of h] have here:
      "dict_host_triples h (PDict (foldl (dict_step False) [] ts))
       = list_host_triples h (PList (map (list_record False) (filter (\<lambda>i. \<not> skipped i) ts)))" .
    from Cons.prems have "\<forall>(h, ts)\<in>set c. distinct (map name (filter (\<lambda>i. \<not> skipped i) ts))"
      by simp
    from Cons.IH [OF this] here show ?case by (simp add: x)
  qed
  then show ?thesis
    by (simp only: dict_triples_def list_triples_def serializer_dict [OF assms(1)]
        serializer_list [OF assms(1)])
qed

text \<open>
  Claim C4, as stated, fails: with two outcomes named \<^verbatim>\<open>show clock\<close> on one host the dict
  shape keeps only the later one, the list shape keeps both.
\<close>

theorem same_triples_counterexample:
  "set (dict_triples (ResultSerializer [(''R1'', [clock_task, later_clock_task])] False True))
   \<noteq> set (list_triples (ResultSerializer [(''R1'', [clock_task, later_clock_task])] False False))"
  by (simp add: ResultSerializer_def dict_step_def list_step_def dict_triples_def
      list_triples_def record_payload_def clock_task_def later_clock_task_def skip_tasks_def)

text \<open>
  Claim C4, amended. For every collection in which no host has two outcomes of the same
  name among those that are not skipped, the dict shape and the list shape returned with
  \<^verbatim>\<open>add_details=False\<close> hold the same set of (host, task name, result) triples.
\<close>

theorem same_triples_distinct_names:
  assumes "distinct (map fst c)"
    and "\<forall>(h, ts)\<in>set c.
           distinct (map name (filter (\<lambda>i. \<not> (startswith_underscore (name i) \<or> name i \<in> set skip_tasks)) ts))"
  shows "set (dict_triples (ResultSerializer c False True))
       = set (list_triples (ResultSerializer c False False))"
proof -
  have "\<forall>(h, ts)\<in>set c. distinct (map name (filter (\<lambda>i. \<not> skipped i) ts))"
    using assms(2) by (simp add: skipped_def)
  from triples_agree [OF assms(1) this] show ?thesis by simp
qed

theorem same_triples_distinct_names_witness:
  "distinct (map fst [(''R1'', [facts_task, clock_task, crashed_task]), (''R2'', [lost_task])])
   \<and> distinct (map name (filter (\<lambda>i. \<not> (startswith_underscore (name i) \<or> name i \<in> set skip_tasks))
         [facts_task, clock_task, crashed_task]))
   \<and> distinct (map name (filter (\<lambda>i. \<not> (startswith_underscore (name i) \<or> name i \<in> set skip_tasks))
         [lost_task]))
   \<and> set (dict_triples (ResultSerializer
        [(''R1'', [facts_task, clock_task, crashed_task]), (''R2'', [lost_task])] False True))
     = set (list_triples (ResultSerializer
        [(''R1'', [facts_task, clock_task, crashed_task]), (''R2'', [lost_task])] False False))"
proof -
  have h1: "distinct (map fst [(''R1'', [facts_task, clock_task, crashed_task]), (''R2'', [lost_task])])"
    by simp
  have d1: "distinct (map name (filter (\<lambda>i. \<not> (startswith_underscore (name i) \<or> name i \<in> set skip_tasks))
         [facts_task, clock_task, crashed_task]))"
    by (simp add: facts_task_def clock_task_def crashed_task_def skip_tasks_def)
  have d2: "distinct (map name (filter (\<lambda>i. \<not> (startswith_underscore (name i) \<or> name i \<in> set skip_tasks))
         [lost_task]))"
    by simp
  have h2: "\<forall>(h, ts)\<in>set [(''R1'', [facts_task, clock_task, crashed_task]), (''R2'', [lost_task])].
           distinct (map name (filter (\<lambda>i. \<not> (startswith_underscore (name i) \<or> name i \<in> set skip_tasks)) ts))"
    using d1 d2 by simp
  from same_triples_distinct_names [OF h1 h2] h1 d1 d2 show ?thesis by blast
qed

section \<open>Properties of the formatter\<close>

lemmas tf_eval =
  TabulateFormatter_def resolve_input_def ResultSerializer_def list_step_def
  skip_tasks_def details_def eq_str_def eq_bool_def finish_def exclude_step_def rows_step_def
  brief_config_def to_row_def heap_of_def setdefault_headers_def dict_has_def dict_del_def
  dict_merge_def

text \<open>
  Claim C1 says that an \<^verbatim>\<open>AggregatedResult\<close> is first turned into one flat list of records,
  each carrying its host. The function hands on what \<^verbatim>\<open>ResultSerializer\<close> returns, a dict from
  host to list: with \<^verbatim>\<open>tabulate=True\<close> that dict reaches the backend as it is, with no
  \<^verbatim>\<open>host\<close> field anywhere, and with \<^verbatim>\<open>tabulate="brief"\<close> the row conversion iterates over the
  host names and fails on \<^verbatim>\<open>item.get\<close>.
\<close>

theorem aggregated_not_flattened:
  "outcome (TabulateFormatter True (heap_of []) (Aggregated [(''R1'', [clock_task])])
      (PBool True) (PStr ''keys'') (PList []))
   = Inr (Tabulated
       (PDict [(''R1'', PList [PDict [(''name'', PStr ''show clock''), (''diff'', PStr []),
          (''changed'', PBool False), (''result'', PStr ''12:00''), (''failed'', PBool False),
          (''exception'', PStr ''None'')]])])
       [(''headers'', PStr ''keys'')])
   \<and> outcome (TabulateFormatter True (heap_of []) (Aggregated [(''R1'', [clock_task])])
      (PStr ''brief'') (PStr ''keys'') (PList []))
   = Inl AttributeError"
  by (simp add: tf_eval clock_task_def)

text \<open>
  Claim C2 says that no supported input and mode raises, records without a \<^verbatim>\<open>result\<close> field
  included. Under \<^verbatim>\<open>tabulate="extend"\<close> the record the serializer emits for a host-level
  exception raises \<^verbatim>\<open>KeyError\<close> at \<^verbatim>\<open>res["result"]\<close>, and an \<^verbatim>\<open>AggregatedResult\<close> raises
  \<^verbatim>\<open>TypeError\<close> there, the loop variable being a host name.
\<close>

theorem extend_raises_without_result:
  "outcome (TabulateFormatter True (heap_of [lost_record]) (ObjectList [0])
      (PStr ''extend'') (PStr ''keys'') (PList []))
   = Inl KeyError
   \<and> list_step True [] lost_task = [lost_record]
   \<and> outcome (TabulateFormatter True (heap_of []) (Aggregated [(''R1'', [clock_task])])
      (PStr ''extend'') (PStr ''keys'') (PList []))
   = Inl TypeError"
  by (simp add: tf_eval clock_task_def lost_task_def lost_record_def)

text \<open>
  Claim C5 says that \<^verbatim>\<open>headers_exclude\<close>, given as a list or as a comma-separated string,
  removes exactly the named fields. A string naming one field has no comma and is not
  split, so \<^verbatim>\<open>k not in headers_exclude\<close> is a substring test: \<^verbatim>\<open>"hostname"\<close> also removes
  \<^verbatim>\<open>host\<close> and \<^verbatim>\<open>name\<close>, which the list \<^verbatim>\<open>["hostname"]\<close> keeps.
\<close>

theorem exclude_string_without_comma:
  "outcome (TabulateFormatter True (heap_of [hostname_record]) (ObjectList [0])
      (PBool True) (PStr ''keys'') (PStr ''hostname''))
   = Inr (Tabulated (PList [PDict [(''result'', PStr ''12:00'')]]) [(''headers'', PStr ''keys'')])
   \<and> outcome (TabulateFormatter True (heap_of [hostname_record]) (ObjectList [0])
      (PBool True) (PStr ''keys'') (PList [PStr ''hostname'']))
   = Inr (Tabulated (PList [PDict [(''host'', PStr ''R1''), (''name'', PStr ''show clock''),
            (''result'', PStr ''12:00'')]]) [(''headers'', PStr ''keys'')])"
  by (simp add: tf_eval hostname_record_def)

subsection \<open>The extend mode\<close>

lemma dict_get_filter_keys:
  "dict_get (filter (\<lambda>kv. P (fst kv)) d) k = (if P k then dict_get d k else None)"
proof (induction d)
  case Nil
  show ?case by simp
next
  case (Cons x d)
  obtain a b where x: "x = (a, b)" by (cases x)
  show ?case
  proof (cases "a = k")
    case True
    with Cons.IH show ?thesis by (simp add: x)
  next
    case False
    with Cons.IH show ?thesis by (simp add: x)
  qed
qed

lemma dict_get_dict_del: "dict_get (dict_del d k) k' = (if k' = k then None else dict_get d k')"
  using dict_get_filter_keys [of "\<lambda>a. a \<noteq> k" d k'] by (simp add: dict_del_def)








subsection \<open>Exclusion and rows\<close>









subsection \<open>What a call does to its arguments\<close>

lemma subscript_result_Inr: "subscript_result v = Inr r \<Longrightarrow> \<exists>d. v = PDict d \<and> dict_get d ''result'' = Some r"
  by (cases v) (auto split: option.splits)

lemma extend_loop_heap:
  "snd (extend_loop h items tbl) a = h a
   \<or> (\<exists>d elems. h a = PDict d \<and> dict_get d ''result'' = Some (PList elems)
         \<and> snd (extend_loop h items tbl) a = PDict (dict_del d ''result''))"
proof (induction items arbitrary: h tbl)
  case Nil
  show ?case by simp
next
  case (Cons res rest)
  show ?case
  proof (cases "subscript_result (deref h res)")
    case (Inl e)
    then show ?thesis by simp
  next
    case (Inr v)
    from subscript_result_Inr [OF Inr] obtain d where
      d: "deref h res = PDict d" and dv: "dict_get d ''result'' = Some v" by blast
    show ?thesis
    proof (cases "\<exists>elems. v = PList elems")
      case True
      then obtain elems where v: "v = PList elems" by blast
      let ?d' = "dict_del d ''result''"
      let ?h1 = "assign h res (PDict ?d')"
      let ?tbl1 = "tbl @ map (\<lambda>i. Val (extend_row ?d' i)) elems"
      have step: "extend_loop h (res # rest) tbl = extend_loop ?h1 rest ?tbl1"
        using Inr d v by simp
      note IH = Cons.IH [of ?h1 ?tbl1]
      show ?thesis
      proof (cases "res = Ref a")
        case True
        then have h1a: "?h1 a = PDict ?d'" by simp
        have "dict_get ?d' ''result'' = None" by (simp add: dict_get_dict_del)
        with IH h1a have "snd (extend_loop ?h1 rest ?tbl1) a = PDict ?d'" by auto
        moreover have "h a = PDict d" using True d by simp
        ultimately show ?thesis using step dv v by simp
      next
        case False
        then have "?h1 a = h a" by (cases res) auto
        with IH step show ?thesis by simp
      qed
    next
      case False
      then have step: "extend_loop h (res # rest) tbl = extend_loop h rest (tbl @ [res])"
        using Inr by (cases v) simp_all
      with Cons.IH [of h "tbl @ [res]"] show ?thesis by simp
    qed
  qed
qed

lemma extend_loop_outside:
  "Ref a \<notin> set items \<Longrightarrow> snd (extend_loop h items tbl) a = h a"
proof (induction items arbitrary: h tbl)
  case Nil
  show ?case by simp
next
  case (Cons res rest)
  from Cons.prems have ne: "res \<noteq> Ref a" and rest: "Ref a \<notin> set rest" by auto
  show ?case
  proof (cases "subscript_result (deref h res)")
    case (Inl e)
    then show ?thesis by simp
  next
    case (Inr v)
    from subscript_result_Inr [OF Inr] obtain d where
      d: "deref h res = PDict d" and dv: "dict_get d ''result'' = Some v" by blast
    show ?thesis
    proof (cases "\<exists>elems. v = PList elems")
      case True
      then obtain elems where v: "v = PList elems" by blast
      let ?h1 = "assign h res (PDict (dict_del d ''result''))"
      have same: "?h1 a = h a" using ne by (cases res) auto
      have "extend_loop h (res # rest) tbl
              = extend_loop ?h1 rest
                  (tbl @ map (\<lambda>i. Val (extend_row (dict_del d ''result'') i)) elems)"
        using Inr d v by simp
      with Cons.IH [OF rest, of ?h1] same show ?thesis by simp
    next
      case False
      then have "extend_loop h (res # rest) tbl = extend_loop h rest (tbl @ [res])"
        using Inr by (cases v) simp_all
      with Cons.IH [OF rest, of h] show ?thesis by simp
    qed
  qed
qed

lemma extend_loop_popped:
  "fst (extend_loop h items tbl) = Inr t \<Longrightarrow> Ref a \<in> set items \<Longrightarrow>
   h a = PDict d \<Longrightarrow> dict_get d ''result'' = Some (PList elems) \<Longrightarrow>
   snd (extend_loop h items tbl) a = PDict (dict_del d ''result'')"
proof (induction items arbitrary: h tbl)
  case Nil
  then show ?case by simp
next
  case (Cons res rest)
  show ?case
  proof (cases "subscript_result (deref h res)")
    case (Inl e)
    with Cons.prems(1) show ?thesis by simp
  next
    case (Inr v)
    from subscript_result_Inr [OF Inr] obtain d0 where
      d0: "deref h res = PDict d0" and dv: "dict_get d0 ''result'' = Some v" by blast
    show ?thesis
    proof (cases "\<exists>es. v = PList es")
      case True
      then obtain es where v: "v = PList es" by blast
      let ?h1 = "assign h res (PDict (dict_del d0 ''result''))"
      let ?tbl1 = "tbl @ map (\<lambda>i. Val (extend_row (dict_del d0 ''result'') i)) es"
      have step: "extend_loop h (res # rest) tbl = extend_loop ?h1 rest ?tbl1"
        using Inr d0 v by simp
      show ?thesis
      proof (cases "res = Ref a")
        case True
        with d0 Cons.prems(3) have dd: "d0 = d" by simp
        have h1a: "?h1 a = PDict (dict_del d ''result'')" using True dd by simp
        have "dict_get (dict_del d ''result'') ''result'' = None" by (simp add: dict_get_dict_del)
        with extend_loop_heap [of ?h1 rest ?tbl1 a] h1a
        have "snd (extend_loop ?h1 rest ?tbl1) a = PDict (dict_del d ''result'')" by auto
        with step show ?thesis by simp
      next
        case False
        with Cons.prems(2) have mem: "Ref a \<in> set rest" by simp
        have same: "?h1 a = PDict d" using False Cons.prems(3) by (cases res) auto
        from Cons.prems(1) step have ok: "fst (extend_loop ?h1 rest ?tbl1) = Inr t" by simp
        from Cons.IH [OF ok mem same Cons.prems(4)] step show ?thesis by simp
      qed
    next
      case False
      then have step: "extend_loop h (res # rest) tbl = extend_loop h rest (tbl @ [res])"
        using Inr by (cases v) simp_all
      have "res \<noteq> Ref a"
      proof
        assume "res = Ref a"
        with d0 dv Cons.prems(3,4) have "v = PList elems" by simp
        with False show False by blast
      qed
      with Cons.prems(2) have mem: "Ref a \<in> set rest" by simp
      from Cons.prems(1) step have ok: "fst (extend_loop h rest (tbl @ [res])) = Inr t" by simp
      from Cons.IH [OF ok mem Cons.prems(3,4)] step show ?thesis by simp
    qed
  qed
qed

lemma heap_after_extend:
  "heap_after (TabulateFormatter has_tabulate h result' tabulate headers headers_exclude)
     = (if has_tabulate \<and> eq_str tabulate ''extend''
        then (case resolve_input result' of
                None \<Rightarrow> h
              | Some t \<Rightarrow> snd (extend_loop h (iter_items t) []))
        else h)"
  by (auto simp: TabulateFormatter_def Let_def eq_str_def eq_bool_def
      split: option.splits prod.splits sum.splits pyval.splits)

lemma outcome_extend_ok:
  "has_tabulate \<Longrightarrow> eq_str tabulate ''extend'' \<Longrightarrow> resolve_input result' = Some t \<Longrightarrow>
   outcome (TabulateFormatter has_tabulate h result' tabulate headers headers_exclude) = Inr ret \<Longrightarrow>
   \<exists>items. fst (extend_loop h (iter_items t) []) = Inr items"
  by (auto simp: TabulateFormatter_def Let_def eq_str_def eq_bool_def
      split: prod.splits sum.splits)

lemma tabulate_after_eq:
  "tabulate_after (TabulateFormatter has_tabulate h result' tabulate headers headers_exclude)
     = (case tabulate of
          PDict d \<Rightarrow>
            if has_tabulate \<and> (\<forall>v. result' \<noteq> Other v) \<and> \<not> dict_has d ''headers''
            then PDict (d @ [(''headers'', check_headers headers)])
            else tabulate
        | _ \<Rightarrow> tabulate)"
proof (cases tabulate)
  case (PDict d)
  have app: "\<not> dict_has d ''headers'' \<Longrightarrow>
        setdefault_headers d (check_headers headers) = d @ [(''headers'', check_headers headers)]"
  proof -
    assume "\<not> dict_has d ''headers''"
    then have "''headers'' \<notin> fst ` set d" by (simp add: dict_has_def dict_get_None_iff)
    from dict_set_fresh [OF this] show ?thesis by (simp add: setdefault_headers_def \<open>\<not> dict_has d ''headers''\<close>)
  qed
  have keep: "dict_has d ''headers'' \<Longrightarrow> setdefault_headers d (check_headers headers) = d"
    by (simp add: setdefault_headers_def)
  show ?thesis
    using PDict app keep
    by (cases result'; cases "dict_has d ''headers''")
       (simp_all add: TabulateFormatter_def Let_def eq_str_def eq_bool_def resolve_input_def)
next
  case PNone
  then show ?thesis
    by (auto simp: TabulateFormatter_def Let_def split: option.splits prod.splits sum.splits)
next
  case (PBool b)
  then show ?thesis
    by (auto simp: TabulateFormatter_def Let_def split: option.splits prod.splits sum.splits)
next
  case (PInt n)
  then show ?thesis
    by (auto simp: TabulateFormatter_def Let_def split: option.splits prod.splits sum.splits)
next
  case (PStr s)
  then show ?thesis
    by (auto simp: TabulateFormatter_def Let_def split: option.splits prod.splits sum.splits)
next
  case (PList xs)
  then show ?thesis
    by (auto simp: TabulateFormatter_def Let_def split: option.splits prod.splits sum.splits)
qed

text \<open>
  Claim C3, as stated, fails. Under \<^verbatim>\<open>tabulate="extend"\<close> a record whose \<^verbatim>\<open>result\<close> is a list
  has lost its \<^verbatim>\<open>result\<close> key after the call (\<^verbatim>\<open>res.pop("result")\<close>), and a configuration
  dict passed as \<^verbatim>\<open>tabulate\<close> without a \<^verbatim>\<open>headers\<close> key has one after the call
  (\<^verbatim>\<open>tabulate.setdefault("headers", headers)\<close>).
\<close>

theorem inputs_unchanged_counterexample:
  "heap_after (TabulateFormatter True (heap_of [interfaces_record]) (ObjectList [0])
      (PStr ''extend'') (PStr ''keys'') (PList [])) 0
     = PDict [(''host'', PStr ''R1''), (''name'', PStr ''show interfaces'')]
   \<and> heap_of [interfaces_record] 0 \<noteq> PDict [(''host'', PStr ''R1''), (''name'', PStr ''show interfaces'')]
   \<and> tabulate_after (TabulateFormatter True (heap_of [clock_record]) (ObjectList [0])
      (PDict [(''tablefmt'', PStr ''grid'')]) (PStr ''keys'') (PList []))
     = PDict [(''tablefmt'', PStr ''grid''), (''headers'', PStr ''keys'')]"
  by (simp add: tf_eval Let_def interfaces_record_def clock_record_def)

text \<open>
  Claim C3, amended. For a call with result \<open>R\<close>: without the backend, for an input that is
  not a list, and under every mode other than \<^verbatim>\<open>"extend"\<close>, the store is as it was before.
  Under \<^verbatim>\<open>"extend"\<close> an object outside the supplied list is as it was before, and every
  object is either as it was before or is a record whose \<^verbatim>\<open>result\<close> was a list and has lost
  exactly its \<^verbatim>\<open>result\<close> key; when such a call returns without raising, every record of the
  supplied list whose \<^verbatim>\<open>result\<close> was a list has lost exactly that key. The object passed as
  \<^verbatim>\<open>tabulate\<close> is as it was before, except that a dict without a \<^verbatim>\<open>headers\<close> key, when the
  backend is there and the input is a list or an \<^verbatim>\<open>AggregatedResult\<close>, has gained exactly
  that key, bound to the resolved headers.
\<close>

theorem inputs_after_call:
  assumes "R = TabulateFormatter has_tabulate h result' tabulate headers headers_exclude"
  shows "(\<not> has_tabulate \<or> (\<forall>as. result' \<noteq> ObjectList as) \<or> \<not> eq_str tabulate ''extend''
            \<longrightarrow> heap_after R = h)
       \<and> (\<forall>as a. result' = ObjectList as \<and> a \<notin> set as \<longrightarrow> heap_after R a = h a)
       \<and> (\<forall>a. heap_after R a = h a
             \<or> (\<exists>d elems. h a = PDict d \<and> dict_get d ''result'' = Some (PList elems)
                   \<and> heap_after R a = PDict (dict_del d ''result'')))
       \<and> (\<forall>as a d elems ret.
             has_tabulate \<and> result' = ObjectList as \<and> eq_str tabulate ''extend''
             \<and> outcome R = Inr ret
             \<and> a \<in> set as \<and> h a = PDict d \<and> dict_get d ''result'' = Some (PList elems)
             \<longrightarrow> heap_after R a = PDict (dict_del d ''result''))
       \<and> tabulate_after R
           = (case tabulate of
                PDict d \<Rightarrow>
                  if has_tabulate \<and> (\<forall>v. result' \<noteq> Other v) \<and> \<not> dict_has d ''headers''
                  then PDict (d @ [(''headers'', check_headers headers)])
                  else tabulate
              | _ \<Rightarrow> tabulate)"
proof (intro conjI)
  note hp = heap_after_extend [of has_tabulate h result' tabulate headers headers_exclude]
  show "\<not> has_tabulate \<or> (\<forall>as. result' \<noteq> ObjectList as) \<or> \<not> eq_str tabulate ''extend''
            \<longrightarrow> heap_after R = h"
  proof
    assume c: "\<not> has_tabulate \<or> (\<forall>as. result' \<noteq> ObjectList as) \<or> \<not> eq_str tabulate ''extend''"
    show "heap_after R = h"
    proof (cases "has_tabulate \<and> eq_str tabulate ''extend''")
      case False
      with hp assms show ?thesis by auto
    next
      case True
      with c have no: "\<forall>as. result' \<noteq> ObjectList as" by blast
      show ?thesis
      proof (cases result')
        case (Aggregated c)
        have ri: "resolve_input result' = Some (Fresh (PDict (ResultSerializer c True False)))"
          by (simp add: resolve_input_def Aggregated)
        have "Ref a \<notin> set (iter_items (Fresh v))" for a v by auto
        then have "snd (extend_loop h (iter_items (Fresh v)) []) a = h a" for a v
          by (rule extend_loop_outside)
        then have e: "snd (extend_loop h (iter_items (Fresh v)) []) = h" for v by (intro ext)
        from hp assms True ri e show ?thesis by (simp del: iter_items.simps)
      next
        case (ObjectList as)
        with no show ?thesis by blast
      next
        case (Other v)
        with hp assms True show ?thesis by (simp add: resolve_input_def)
      qed
    qed
  qed
  show "\<forall>as a. result' = ObjectList as \<and> a \<notin> set as \<longrightarrow> heap_after R a = h a"
  proof (intro allI impI)
    fix as a assume c: "result' = ObjectList as \<and> a \<notin> set as"
    then have "Ref a \<notin> set (map Ref as)" by auto
    from extend_loop_outside [OF this, of h "[]"] hp assms c
    show "heap_after R a = h a" by (simp add: resolve_input_def)
  qed
  show "\<forall>a. heap_after R a = h a
             \<or> (\<exists>d elems. h a = PDict d \<and> dict_get d ''result'' = Some (PList elems)
                   \<and> heap_after R a = PDict (dict_del d ''result''))"
  proof
    fix a
    show "heap_after R a = h a
             \<or> (\<exists>d elems. h a = PDict d \<and> dict_get d ''result'' = Some (PList elems)
                   \<and> heap_after R a = PDict (dict_del d ''result''))"
    proof (cases "has_tabulate \<and> eq_str tabulate ''extend''")
      case False
      with hp assms show ?thesis by auto
    next
      case True
      show ?thesis
      proof (cases "resolve_input result'")
        case None
        with hp assms True show ?thesis by simp
      next
        case (Some t)
        with hp assms True have "heap_after R = snd (extend_loop h (iter_items t) [])" by simp
        with extend_loop_heap [of h "iter_items t" "[]" a] show ?thesis by simp
      qed
    qed
  qed
  show "\<forall>as a d elems ret.
             has_tabulate \<and> result' = ObjectList as \<and> eq_str tabulate ''extend''
             \<and> outcome R = Inr ret
             \<and> a \<in> set as \<and> h a = PDict d \<and> dict_get d ''result'' = Some (PList elems)
             \<longrightarrow> heap_after R a = PDict (dict_del d ''result'')"
  proof (intro allI impI)
    fix as a d elems ret
    assume c: "has_tabulate \<and> result' = ObjectList as \<and> eq_str tabulate ''extend''
             \<and> outcome R = Inr ret
             \<and> a \<in> set as \<and> h a = PDict d \<and> dict_get d ''result'' = Some (PList elems)"
    then have ri: "resolve_input result' = Some (Objects as)" by (simp add: resolve_input_def)
    from c have "outcome R = Inr ret" by blast
    then have "outcome (TabulateFormatter has_tabulate h result' tabulate headers headers_exclude) = Inr ret"
      unfolding assms .
    from outcome_extend_ok [OF _ _ ri this] c
    obtain items where ok: "fst (extend_loop h (map Ref as) []) = Inr items" by auto
    from c have mem: "Ref a \<in> set (map Ref as)" by auto
    from extend_loop_popped [OF ok mem] c
    have "snd (extend_loop h (map Ref as) []) a = PDict (dict_del d ''result'')" by blast
    with hp assms c ri show "heap_after R a = PDict (dict_del d ''result'')" by simp
  qed
  show "tabulate_after R
           = (case tabulate of
                PDict d \<Rightarrow>
                  if has_tabulate \<and> (\<forall>v. result' \<noteq> Other v) \<and> \<not> dict_has d ''headers''
                  then PDict (d @ [(''headers'', check_headers headers)])
                  else tabulate
              | _ \<Rightarrow> tabulate)"
    using tabulate_after_eq [of has_tabulate h result' tabulate headers headers_exclude] assms
    by simp
qed

theorem inputs_after_call_witness:
  "heap_after (TabulateFormatter True (heap_of [interfaces_record, clock_record]) (ObjectList [0, 1])
      (PStr ''extend'') (PStr ''keys'') (PList [])) 0
     = PDict [(''host'', PStr ''R1''), (''name'', PStr ''show interfaces'')]
   \<and> heap_after (TabulateFormatter True (heap_of [interfaces_record, clock_record]) (ObjectList [0, 1])
      (PStr ''extend'') (PStr ''keys'') (PList [])) 1 = clock_record
   \<and> heap_after (TabulateFormatter False (heap_of [interfaces_record, clock_record]) (ObjectList [0, 1])
      (PStr ''extend'') (PStr ''keys'') (PList [])) = heap_of [interfaces_record, clock_record]
   \<and> tabulate_after (TabulateFormatter True (heap_of [clock_record]) (ObjectList [0])
      (PDict [(''tablefmt'', PStr ''grid'')]) (PStr ''name,result'') (PList []))
     = PDict [(''tablefmt'', PStr ''grid''), (''headers'', PList [PStr ''name'', PStr ''result''])]"
proof -
  let ?h = "heap_of [interfaces_record, clock_record]"
  let ?R = "TabulateFormatter True ?h (ObjectList [0, 1]) (PStr ''extend'') (PStr ''keys'') (PList [])"
  note T = inputs_after_call [OF refl, where has_tabulate = True and h = ?h
      and result' = "ObjectList [0, 1]" and tabulate = "PStr ''extend''"
      and headers = "PStr ''keys''" and headers_exclude = "PList []"]
  have ok: "outcome ?R = Inr (Tabulated (PList
         [PDict [(''host'', PStr ''R1''), (''name'', PStr ''uplink''), (''interface'', PStr ''Eth1'')],
          PDict [(''host'', PStr ''R1''), (''name'', PStr ''show interfaces''), (''result'', PStr ''Eth2'')],
          PDict [(''host'', PStr ''R1''), (''name'', PStr ''show interfaces''), (''result'', PInt 3)],
          clock_record])
         [(''headers'', PStr ''keys'')])"
    by (simp add: tf_eval Let_def interfaces_record_def clock_record_def)
  have h0: "?h 0 = PDict [(''host'', PStr ''R1''), (''name'', PStr ''show interfaces''),
            (''result'', PList [PDict [(''interface'', PStr ''Eth1''), (''name'', PStr ''uplink'')],
                                PStr ''Eth2'', PInt 3])]"
    by (simp add: heap_of_def interfaces_record_def)
  have r0: "dict_get [(''host'', PStr ''R1''), (''name'', PStr ''show interfaces''),
            (''result'', PList [PDict [(''interface'', PStr ''Eth1''), (''name'', PStr ''uplink'')],
                                PStr ''Eth2'', PInt 3])] ''result''
          = Some (PList [PDict [(''interface'', PStr ''Eth1''), (''name'', PStr ''uplink'')],
                                PStr ''Eth2'', PInt 3])"
    by simp
  have e: "eq_str (PStr ''extend'') ''extend''" by (simp add: eq_str_def)
  have m: "(0::nat) \<in> set [0, 1]" by simp
  from T ok h0 r0 e m
  have "heap_after ?R 0 = PDict (dict_del [(''host'', PStr ''R1''), (''name'', PStr ''show interfaces''),
            (''result'', PList [PDict [(''interface'', PStr ''Eth1''), (''name'', PStr ''uplink'')],
                                PStr ''Eth2'', PInt 3])] ''result'')"
    by blast
  then have 1: "heap_after ?R 0 = PDict [(''host'', PStr ''R1''), (''name'', PStr ''show interfaces'')]"
    by (simp add: dict_del_def)
  have h1: "?h 1 = clock_record" by (simp add: heap_of_def)
  have n1: "\<not> (\<exists>d elems. ?h 1 = PDict d \<and> dict_get d ''result'' = Some (PList elems))"
    by (simp add: heap_of_def clock_record_def)
  from T n1 have "heap_after ?R 1 = ?h 1" by blast
  with h1 have 2: "heap_after ?R 1 = clock_record" by simp
  from inputs_after_call [OF refl, where has_tabulate = False and h = ?h
      and result' = "ObjectList [0, 1]" and tabulate = "PStr ''extend''"
      and headers = "PStr ''keys''" and headers_exclude = "PList []"]
  have 3: "heap_after (TabulateFormatter False ?h (ObjectList [0, 1])
      (PStr ''extend'') (PStr ''keys'') (PList [])) = ?h"
    by blast
  from inputs_after_call [OF refl, where has_tabulate = True and h = "heap_of [clock_record]"
      and result' = "ObjectList [0]" and tabulate = "PDict [(''tablefmt'', PStr ''grid'')]"
      and headers = "PStr ''name,result''" and headers_exclude = "PList []"]
  have "tabulate_after (TabulateFormatter True (heap_of [clock_record]) (ObjectList [0])
      (PDict [(''tablefmt'', PStr ''grid'')]) (PStr ''name,result'') (PList []))
     = (case PDict [(''tablefmt'', PStr ''grid'')] of
          PDict d \<Rightarrow>
            if True \<and> (\<forall>v. ObjectList [0] \<noteq> Other v) \<and> \<not> dict_has d ''headers''
            then PDict (d @ [(''headers'', check_headers (PStr ''name,result''))])
            else PDict [(''tablefmt'', PStr ''grid'')]
        | _ \<Rightarrow> PDict [(''tablefmt'', PStr ''grid'')])"
    by blast
  then have 4: "tabulate_after (TabulateFormatter True (heap_of [clock_record]) (ObjectList [0])
      (PDict [(''tablefmt'', PStr ''grid'')]) (PStr ''name,result'') (PList []))
     = PDict [(''tablefmt'', PStr ''grid''), (''headers'', PList [PStr ''name'', PStr ''result''])]"
    by (simp add: dict_has_def py_strip_def py_isspace_def)
  show ?thesis using 1 2 3 4 by simp
qed

end
